theory Spec2Isabelle
  imports Main
begin

section \<open>Errors raised by the package\<close>

text \<open>
  Every exception the modelled code can raise is a constructor. \<open>ValueError\<close>,
  \<open>AssertionError\<close> carry the message; \<open>NetworkXError u v\<close> is what
  \<open>DiGraph.remove_edge(u, v)\<close> raises when the edge is not in the graph;
  \<open>LookupError\<close> carries the value the country database was asked for;
  \<open>UnboundLocalError\<close> is Python's error for reading a local that was never assigned.
\<close>

datatype error =
    ValueError string
  | NetworkXError string string
  | AssertionError string
  | LookupError string
  | UnboundLocalError string

section \<open>Python strings and dictionaries\<close>

text \<open>
  A Python \<open>str\<close> is a list of characters; a \<open>char\<close> stands for the code point of
  the same number (code points below 256). A \<open>dict\<close> is an association list in
  insertion order with distinct keys.
\<close>

fun startswith :: "string \<Rightarrow> string \<Rightarrow> bool" where
  "startswith s [] = True"
| "startswith [] (c # p) = False"
| "startswith (x # s) (c # p) = (x = c \<and> startswith s p)"

definition endswith :: "string \<Rightarrow> string \<Rightarrow> bool" where
  "endswith s suf = startswith (rev s) (rev suf)"

text \<open>\<open>value.replace('"', "")\<close>: every double quote (code point 0x22) is dropped.\<close>

definition replace_quote :: "string \<Rightarrow> string" where
  "replace_quote s = filter (\<lambda>c. c \<noteq> CHR 0x22) s"

fun dict_set :: "'k \<Rightarrow> 'v \<Rightarrow> ('k \<times> 'v) list \<Rightarrow> ('k \<times> 'v) list" where
  "dict_set k v [] = [(k, v)]"
| "dict_set k v (p # ps) = (if fst p = k then (k, v) # ps else p # dict_set k v ps)"

fun dict_update :: "('k \<times> 'v) list \<Rightarrow> ('k \<times> 'v) list \<Rightarrow> ('k \<times> 'v) list" where
  "dict_update d [] = d"
| "dict_update d (kv # kvs) = dict_update (dict_set (fst kv) (snd kv) d) kvs"

section \<open>The directed graph (\<open>networkx.DiGraph\<close>)\<close>

text \<open>
  Node identifiers are strings: the \<open>.dot\<close> reader produces string identifiers and the
  proxy nodes are the prefix strings themselves. \<open>g_nodes\<close> is the node dictionary
  (identifier to attribute dictionary); \<open>g_edges\<close> lists the edges, for the input graph in
  the order in which \<open>rulegraph.edges\<close> yields them. Edge attributes are never read or
  written by the modelled code and are left out.
\<close>

type_synonym node = string
type_synonym attrs = "(string \<times> string) list"

record digraph =
  g_nodes :: "(node \<times> attrs) list"
  g_edges :: "(node \<times> node) list"

definition node_set :: "digraph \<Rightarrow> node set" where
  "node_set g = set (map fst (g_nodes g))"

definition edge_set :: "digraph \<Rightarrow> (node \<times> node) set" where
  "edge_set g = set (g_edges g)"

definition has_node :: "digraph \<Rightarrow> node \<Rightarrow> bool" where
  "has_node g n = (n \<in> set (map fst (g_nodes g)))"

text \<open>
  \<open>G.add_node(n, **attr)\<close>: a new node gets the attributes; an existing node has its
  attribute dictionary updated.
\<close>

definition add_node :: "node \<Rightarrow> attrs \<Rightarrow> digraph \<Rightarrow> digraph" where
  "add_node n a g =
     (if has_node g n
      then g\<lparr>g_nodes := map (\<lambda>kd. if fst kd = n then (fst kd, dict_update (snd kd) a) else kd)
                              (g_nodes g)\<rparr>
      else g\<lparr>g_nodes := g_nodes g @ [(n, dict_update [] a)]\<rparr>)"

text \<open>
  \<open>G.add_edge(u, v)\<close>: both endpoints are added as attribute-less nodes when they are not
  in the graph; adding an edge that is present changes nothing.
\<close>

definition add_edge :: "node \<Rightarrow> node \<Rightarrow> digraph \<Rightarrow> digraph" where
  "add_edge u v g =
     (let g1 = (if has_node g u then g else g\<lparr>g_nodes := g_nodes g @ [(u, [])]\<rparr>);
          g2 = (if has_node g1 v then g1 else g1\<lparr>g_nodes := g_nodes g1 @ [(v, [])]\<rparr>)
      in if (u, v) \<in> set (g_edges g2) then g2
         else g2\<lparr>g_edges := g_edges g2 @ [(u, v)]\<rparr>)"

text \<open>\<open>G.remove_edge(u, v)\<close> raises when the edge is not in the graph.\<close>

definition remove_edge :: "node \<Rightarrow> node \<Rightarrow> digraph \<Rightarrow> error + digraph" where
  "remove_edge u v g =
     (if (u, v) \<in> set (g_edges g)
      then Inr (g\<lparr>g_edges := removeAll (u, v) (g_edges g)\<rparr>)
      else Inl (NetworkXError u v))"

text \<open>
  \<open>G.remove_nodes_from(ns)\<close>: each node of \<open>ns\<close> that is in the graph is removed with
  its incident edges; a node that is not in the graph is skipped silently.
\<close>

definition remove_node_silent :: "node \<Rightarrow> digraph \<Rightarrow> digraph" where
  "remove_node_silent n g =
     (if has_node g n
      then g\<lparr>g_nodes := filter (\<lambda>kd. fst kd \<noteq> n) (g_nodes g),
             g_edges := filter (\<lambda>e. fst e \<noteq> n \<and> snd e \<noteq> n) (g_edges g)\<rparr>
      else g)"

fun remove_nodes_from :: "node list \<Rightarrow> digraph \<Rightarrow> digraph" where
  "remove_nodes_from [] g = g"
| "remove_nodes_from (n # ns) g = remove_nodes_from ns (remove_node_silent n g)"

text \<open>
  \<open>nx.get_node_attributes(G, name)\<close>: the dictionary from each node that has the
  attribute to its value.
\<close>

definition get_node_attributes :: "digraph \<Rightarrow> string \<Rightarrow> (node \<times> string) list" where
  "get_node_attributes g name =
     List.map_filter (\<lambda>kd. map_option (Pair (fst kd)) (map_of (snd kd) name)) (g_nodes g)"

section \<open>\<open>_modularise_snakemake_graph\<close>\<close>

text \<open>The cleaned labels, computed once from the input graph before the loop.\<close>

definition clean_labels :: "digraph \<Rightarrow> (node \<times> string) list" where
  "clean_labels rulegraph =
     map (\<lambda>kv. (fst kv, replace_quote (snd kv))) (get_node_attributes rulegraph ''label'')"

definition module_node_attrs :: "string \<Rightarrow> attrs" where
  "module_node_attrs prefix =
     [(''label'', prefix), (''color'', ''0 0 0''), (''style'', ''diagonals'')]"

text \<open>
  \<open>set(key for key, value in labels.items() if value.startswith(prefix))\<close>; the set is
  kept as the list of its members.
\<close>

definition module_nodes :: "(node \<times> string) list \<Rightarrow> string \<Rightarrow> node list" where
  "module_nodes labels prefix = map fst (filter (\<lambda>kv. startswith (snd kv) prefix) labels)"

text \<open>
  The body of \<open>for edge in rulegraph.edges\<close>. \<open>not set(edge) - module_nodes\<close> holds
  exactly when both endpoints are module nodes.
\<close>

definition process_edge :: "node list \<Rightarrow> string \<Rightarrow> node \<times> node \<Rightarrow> digraph \<Rightarrow> error + digraph" where
  "process_edge M prefix edge modulegraph =
     (if fst edge \<in> set M \<and> snd edge \<in> set M
      then remove_edge (fst edge) (snd edge) modulegraph
      else if fst edge \<in> set M \<and> snd edge \<notin> set M
      then Inr (add_edge prefix (snd edge) modulegraph)
      else if fst edge \<notin> set M \<and> snd edge \<in> set M
      then Inr (add_edge (fst edge) prefix modulegraph)
      else Inr modulegraph)"

fun edge_loop :: "node list \<Rightarrow> string \<Rightarrow> (node \<times> node) list \<Rightarrow> digraph \<Rightarrow> error + digraph" where
  "edge_loop M prefix [] modulegraph = Inr modulegraph"
| "edge_loop M prefix (edge # es) modulegraph =
     (case process_edge M prefix edge modulegraph of
        Inl err \<Rightarrow> Inl err
      | Inr mg \<Rightarrow> edge_loop M prefix es mg)"

text \<open>
  One iteration of \<open>for prefix in module_prefixes\<close>. The labels and the edges iterated
  over are those of the input graph \<open>rulegraph\<close>; the graph that is changed is the copy.
\<close>

definition process_prefix ::
  "(node \<times> string) list \<Rightarrow> (node \<times> node) list \<Rightarrow> string \<Rightarrow> digraph \<Rightarrow> error + digraph" where
  "process_prefix labels rule_edges prefix modulegraph =
     (let mg1 = add_node prefix (module_node_attrs prefix) modulegraph;
          M = module_nodes labels prefix
      in if M = [] then Inl (ValueError (''Prefix not found: '' @ prefix @ ''.''))
         else (case edge_loop M prefix rule_edges mg1 of
                 Inl err \<Rightarrow> Inl err
               | Inr mg2 \<Rightarrow> Inr (remove_nodes_from M mg2)))"

fun prefix_loop ::
  "(node \<times> string) list \<Rightarrow> (node \<times> node) list \<Rightarrow> string list \<Rightarrow> digraph \<Rightarrow> error + digraph" where
  "prefix_loop labels rule_edges [] modulegraph = Inr modulegraph"
| "prefix_loop labels rule_edges (prefix # ps) modulegraph =
     (case process_prefix labels rule_edges prefix modulegraph of
        Inl err \<Rightarrow> Inl err
      | Inr mg \<Rightarrow> prefix_loop labels rule_edges ps mg)"

text \<open>
  \<open>modulegraph = rulegraph.copy()\<close> is the same value; the loop then runs on it.
\<close>

definition modularise_snakemake_graph :: "digraph \<Rightarrow> string list \<Rightarrow> error + digraph" where
  "modularise_snakemake_graph rulegraph module_prefixes =
     prefix_loop (clean_labels rulegraph) (g_edges rulegraph) module_prefixes rulegraph"

section \<open>Preconditions on the inputs\<close>

text \<open>
  The representation invariant of a \<open>DiGraph\<close>: node identifiers and edges are dictionary
  keys, so none occurs twice, and both endpoints of every edge are nodes.
\<close>

definition wf_digraph :: "digraph \<Rightarrow> bool" where
  "wf_digraph g =
     (distinct (map fst (g_nodes g)) \<and> distinct (g_edges g) \<and>
      list_all (\<lambda>e. has_node g (fst e) \<and> has_node g (snd e)) (g_edges g))"

text \<open>Each prefix matches at least one node.\<close>

definition valid_prefixes :: "(node \<times> string) list \<Rightarrow> string list \<Rightarrow> bool" where
  "valid_prefixes labels P = list_all (\<lambda>p. module_nodes labels p \<noteq> []) P"

text \<open>No node's cleaned label matches more than one prefix of the sequence.\<close>

definition non_overlapping :: "(node \<times> string) list \<Rightarrow> string list \<Rightarrow> bool" where
  "non_overlapping labels P =
     list_all (\<lambda>kv. length (filter (\<lambda>p. startswith (snd kv) p) P) \<le> 1) labels"

text \<open>No prefix is the identifier of a node of the graph.\<close>

definition no_prefix_is_node :: "digraph \<Rightarrow> string list \<Rightarrow> bool" where
  "no_prefix_is_node g P = list_all (\<lambda>p. \<not> has_node g p) P"

text \<open>
  The prefixes whose group a node belongs to, and the condition that no edge joins
  members of two different groups.
\<close>

definition groups_of :: "(node \<times> string) list \<Rightarrow> string list \<Rightarrow> node \<Rightarrow> string list" where
  "groups_of labels P n = filter (\<lambda>p. n \<in> set (module_nodes labels p)) P"

definition no_cross_group_edges ::
  "(node \<times> string) list \<Rightarrow> string list \<Rightarrow> (node \<times> node) list \<Rightarrow> bool" where
  "no_cross_group_edges labels P E =
     list_all (\<lambda>e. groups_of labels P (fst e) = [] \<or> groups_of labels P (snd e) = [] \<or>
                    groups_of labels P (fst e) = groups_of labels P (snd e)) E"

section \<open>\<open>write_snakemake_modulegraph_png\<close>\<close>

text \<open>
  The entry operation reads a file and writes a file. The two collaborators are
  parameters: \<open>read_dot\<close> stands for \<open>nx.DiGraph(nx.nx_pydot.read_dot(path))\<close> and
  \<open>write_png\<close> for \<open>to_pydot(graph).write_png(path)\<close>; either may raise. The calls made
  to them are recorded, in order, in the list of events returned beside the result.
  A path is given by its string form \<open>str(snakemake_dotfile)\<close>; \<open>prefixes\<close> is one
  string or a list of strings.
\<close>

datatype io_event = ReadDot string | WritePng string digraph

datatype prefixes_arg = PrefixStr string | PrefixList "string list"

definition write_snakemake_modulegraph_png ::
  "(string \<Rightarrow> error + digraph) \<Rightarrow> (digraph \<Rightarrow> string \<Rightarrow> error option) \<Rightarrow>
   string \<Rightarrow> string \<Rightarrow> prefixes_arg \<Rightarrow> (error + unit) \<times> io_event list" where
  "write_snakemake_modulegraph_png read_dot write_png snakemake_dotfile output_path prefixes =
     (if \<not> endswith snakemake_dotfile ''.dot''
      then (Inl (ValueError ''Only .dot files can be processed.''), [])
      else
        let ps = (case prefixes of PrefixStr s \<Rightarrow> [s] | PrefixList l \<Rightarrow> l) in
        (case read_dot snakemake_dotfile of
           Inl err \<Rightarrow> (Inl err, [ReadDot snakemake_dotfile])
         | Inr rulegraph \<Rightarrow>
             (case modularise_snakemake_graph rulegraph ps of
                Inl err \<Rightarrow> (Inl err, [ReadDot snakemake_dotfile])
              | Inr modulegraph \<Rightarrow>
                  (case write_png modulegraph output_path of
                     Some err \<Rightarrow>
                       (Inl err, [ReadDot snakemake_dotfile, WritePng output_path modulegraph])
                   | None \<Rightarrow>
                       (Inr (), [ReadDot snakemake_dotfile, WritePng output_path modulegraph])))))"

section \<open>The routine on a store of graph objects\<close>

text \<open>
  To say that the caller's graph is not changed, the graphs live in a store: a list of
  graph objects, an address being an index. \<open>rulegraph\<close> is the address \<open>r\<close> of the
  caller's graph; \<open>rulegraph.copy()\<close> allocates a new object (networkx copies the node
  dictionary, each attribute dictionary and the adjacency); every method call of the
  loop body updates, in place, the object it is called on. An exception leaves the store
  as it is at that moment.
\<close>

type_synonym store = "digraph list"

definition add_node_at :: "nat \<Rightarrow> node \<Rightarrow> attrs \<Rightarrow> store \<Rightarrow> store" where
  "add_node_at m n a h = h[m := add_node n a (h ! m)]"

definition add_edge_at :: "nat \<Rightarrow> node \<Rightarrow> node \<Rightarrow> store \<Rightarrow> store" where
  "add_edge_at m u v h = h[m := add_edge u v (h ! m)]"

definition remove_edge_at :: "nat \<Rightarrow> node \<Rightarrow> node \<Rightarrow> store \<Rightarrow> error option \<times> store" where
  "remove_edge_at m u v h =
     (case remove_edge u v (h ! m) of
        Inl err \<Rightarrow> (Some err, h)
      | Inr g \<Rightarrow> (None, h[m := g]))"

definition remove_nodes_from_at :: "nat \<Rightarrow> node list \<Rightarrow> store \<Rightarrow> store" where
  "remove_nodes_from_at m ns h = h[m := remove_nodes_from ns (h ! m)]"

definition process_edge_at ::
  "nat \<Rightarrow> node list \<Rightarrow> string \<Rightarrow> node \<times> node \<Rightarrow> store \<Rightarrow> error option \<times> store" where
  "process_edge_at m M prefix edge h =
     (if fst edge \<in> set M \<and> snd edge \<in> set M
      then remove_edge_at m (fst edge) (snd edge) h
      else if fst edge \<in> set M \<and> snd edge \<notin> set M
      then (None, add_edge_at m prefix (snd edge) h)
      else if fst edge \<notin> set M \<and> snd edge \<in> set M
      then (None, add_edge_at m (fst edge) prefix h)
      else (None, h))"

fun edge_loop_at ::
  "nat \<Rightarrow> node list \<Rightarrow> string \<Rightarrow> (node \<times> node) list \<Rightarrow> store \<Rightarrow> error option \<times> store" where
  "edge_loop_at m M prefix [] h = (None, h)"
| "edge_loop_at m M prefix (edge # es) h =
     (case process_edge_at m M prefix edge h of
        (Some err, h') \<Rightarrow> (Some err, h')
      | (None, h') \<Rightarrow> edge_loop_at m M prefix es h')"

text \<open>\<open>rulegraph.edges\<close> is read from the object at \<open>r\<close> each time the inner loop starts.\<close>

definition process_prefix_at ::
  "nat \<Rightarrow> nat \<Rightarrow> (node \<times> string) list \<Rightarrow> string \<Rightarrow> store \<Rightarrow> error option \<times> store" where
  "process_prefix_at r m labels prefix h =
     (let h1 = add_node_at m prefix (module_node_attrs prefix) h;
          M = module_nodes labels prefix
      in if M = [] then (Some (ValueError (''Prefix not found: '' @ prefix @ ''.'')), h1)
         else (case edge_loop_at m M prefix (g_edges (h1 ! r)) h1 of
                 (Some err, h2) \<Rightarrow> (Some err, h2)
               | (None, h2) \<Rightarrow> (None, remove_nodes_from_at m M h2)))"

fun prefix_loop_at ::
  "nat \<Rightarrow> nat \<Rightarrow> (node \<times> string) list \<Rightarrow> string list \<Rightarrow> store \<Rightarrow> error option \<times> store" where
  "prefix_loop_at r m labels [] h = (None, h)"
| "prefix_loop_at r m labels (prefix # ps) h =
     (case process_prefix_at r m labels prefix h of
        (Some err, h') \<Rightarrow> (Some err, h')
      | (None, h') \<Rightarrow> prefix_loop_at r m labels ps h')"

text \<open>
  The whole routine: it returns the error, or the address of the new graph, and the
  store it leaves behind.
\<close>

definition modularise_snakemake_graph_at ::
  "nat \<Rightarrow> string list \<Rightarrow> store \<Rightarrow> (error + nat) \<times> store" where
  "modularise_snakemake_graph_at r module_prefixes h =
     (let labels = clean_labels (h ! r);
          m = length h;
          h0 = h @ [h ! r]
      in case prefix_loop_at r m labels module_prefixes h0 of
           (Some err, h') \<Rightarrow> (Inl err, h')
         | (None, h') \<Rightarrow> (Inr m, h'))"

section \<open>Country codes (\<open>utils.py\<close>)\<close>

text \<open>
  \<open>str.lower()\<close> on code points below 256: the ASCII capitals and the Latin-1 capitals
  (0xC0 to 0xDE without the multiplication sign 0xD7) move up by 32.
\<close>

definition lower_char :: "char \<Rightarrow> char" where
  "lower_char c =
     (let n = (of_char c :: nat)
      in if (65 \<le> n \<and> n \<le> 90) \<or> (192 \<le> n \<and> n \<le> 222 \<and> n \<noteq> 215)
         then char_of (n + 32) else c)"

definition lower :: "string \<Rightarrow> string" where
  "lower s = map lower_char s"

text \<open>
  A record of the \<open>pycountry\<close> database with the three fields the code reads. The
  database itself belongs to the library: \<open>pycountry.countries.lookup\<close> is the parameter
  \<open>lookup\<close>, which returns \<open>None\<close> where the library raises \<open>LookupError\<close>.
\<close>

record country =
  alpha_2 :: string
  alpha_3 :: string
  name :: string

text \<open>
  The four \<open>if output == ...\<close> statements run one after the other; \<open>converted\<close> stays
  unassigned when \<open>output\<close> is none of the four names, and returning it then fails.
\<close>

definition convert_country_code ::
  "(string \<Rightarrow> country option) \<Rightarrow> string \<Rightarrow> string \<Rightarrow> error + string" where
  "convert_country_code lookup input_country output =
     (let input_country' =
            (if lower input_country = ''el'' then ''gr''
             else if lower input_country = ''uk'' then ''gb''
             else if lower input_country = ''bh'' then ''ba''
             else input_country)
      in case lookup input_country' of
           None \<Rightarrow> Inl (LookupError input_country')
         | Some found \<Rightarrow>
             (let c1 = (if output = ''alpha2'' then Some (alpha_2 found) else None);
                  c2 = (if output = ''alpha2_eu''
                        then (let alpha2 = alpha_2 found
                              in if alpha2 = ''GB'' then Some ''UK''
                                 else if alpha2 = ''GR'' then Some ''EL''
                                 else Some alpha2)
                        else c1);
                  c3 = (if output = ''alpha3'' then Some (alpha_3 found) else c2);
                  c4 = (if output = ''name'' then Some (name found) else c3)
              in case c4 of
                   None \<Rightarrow> Inl (UnboundLocalError ''converted'')
                 | Some converted \<Rightarrow> Inr converted))"

definition eu_country_code_to_iso3 ::
  "(string \<Rightarrow> country option) \<Rightarrow> string \<Rightarrow> error + string" where
  "eu_country_code_to_iso3 lookup eu_country_code =
     (if length eu_country_code = 2
      then convert_country_code lookup eu_country_code ''alpha3''
      else Inl (AssertionError
                  (''EU country codes are of length 2, yours is '' @ [CHR 0x27] @
                   eu_country_code @ [CHR 0x27] @ ''.'')))"

section \<open>Example inputs\<close>

text \<open>The scenario of the specification: A and B belong to \<open>module_x\<close>, C does not.\<close>

definition scenario_graph :: digraph where
  "scenario_graph =
     \<lparr>g_nodes = [(''A'', [(''label'', ''module_x.rule1'')]),
                 (''B'', [(''label'', ''module_x.rule2'')]),
                 (''C'', [(''label'', ''other'')])],
      g_edges = [(''C'', ''A''), (''A'', ''B'')]\<rparr>"

text \<open>Two modules with one rule each, and an edge from the first to the second.\<close>

definition two_module_graph :: digraph where
  "two_module_graph =
     \<lparr>g_nodes = [(''A'', [(''label'', ''m1.a'')]), (''B'', [(''label'', ''m2.b'')])],
      g_edges = [(''A'', ''B'')]\<rparr>"

text \<open>A graph one of whose nodes is identified by the string that is also the prefix.\<close>

definition colliding_graph :: digraph where
  "colliding_graph =
     \<lparr>g_nodes = [(''mod'', [(''label'', ''mod.rule1'')]), (''C'', [(''label'', ''other'')])],
      g_edges = [(''C'', ''mod'')]\<rparr>"

text \<open>Two modules that are joined only through a rule outside both.\<close>

definition separated_graph :: digraph where
  "separated_graph =
     \<lparr>g_nodes = [(''A'', [(''label'', ''m1.a'')]), (''B'', [(''label'', ''m1.b'')]),
                 (''C'', [(''label'', ''other'')]), (''D'', [(''label'', ''m2.d'')])],
      g_edges = [(''A'', ''B''), (''B'', ''C''), (''C'', ''D'')]\<rparr>"

text \<open>
  A graph whose node \<open>q\<close> belongs to the module \<open>p\<close> and is named like the second
  prefix.
\<close>

definition renamed_graph :: digraph where
  "renamed_graph =
     \<lparr>g_nodes = [(''q'', [(''label'', ''p.1'')]), (''v'', [(''label'', ''p.2'')]),
                 (''x'', [(''label'', ''q.1'')])],
      g_edges = [(''q'', ''v''), (''x'', ''v'')]\<rparr>"

text \<open>A single rule whose label starts with both \<open>m\<close> and \<open>m1\<close>.\<close>

definition single_rule_graph :: digraph where
  "single_rule_graph = \<lparr>g_nodes = [(''A'', [(''label'', ''m1.x'')])], g_edges = []\<rparr>"

text \<open>
  A database of four records, looked up without regard to case by any of the three
  fields, as \<open>pycountry.countries.lookup\<close> does.
\<close>

definition example_countries :: "country list" where
  "example_countries =
     [\<lparr>alpha_2 = ''FR'', alpha_3 = ''FRA'', name = ''France''\<rparr>,
      \<lparr>alpha_2 = ''GR'', alpha_3 = ''GRC'', name = ''Greece''\<rparr>,
      \<lparr>alpha_2 = ''GB'', alpha_3 = ''GBR'', name = ''United Kingdom''\<rparr>,
      \<lparr>alpha_2 = ''BA'', alpha_3 = ''BIH'', name = ''Bosnia and Herzegovina''\<rparr>]"

definition example_lookup :: "string \<Rightarrow> country option" where
  "example_lookup v =
     find (\<lambda>c. lower (alpha_2 c) = lower v \<or> lower (alpha_3 c) = lower v \<or>
                lower (name c) = lower v) example_countries"

section \<open>What each graph operation does to the sets of nodes and edges\<close>

lemma keys_add_node_aux:
  "map fst (map (\<lambda>kd. if fst kd = n then (fst kd, f kd) else kd) xs) = map fst xs"
  by (induction xs) auto

lemma keys_add_node:
  "map fst (g_nodes (add_node n a g)) =
     (if has_node g n then map fst (g_nodes g) else map fst (g_nodes g) @ [n])"
  by (simp add: add_node_def keys_add_node_aux)

lemma node_set_add_node: "node_set (add_node n a g) = insert n (node_set g)"
  by (auto simp: node_set_def keys_add_node has_node_def)

lemma edge_set_add_node: "edge_set (add_node n a g) = edge_set g"
  by (simp add: edge_set_def add_node_def)

lemma node_set_add_edge: "node_set (add_edge u v g) = insert u (insert v (node_set g))"
  by (auto simp: node_set_def add_edge_def has_node_def Let_def)

lemma edge_set_add_edge: "edge_set (add_edge u v g) = insert (u, v) (edge_set g)"
  by (auto simp: edge_set_def add_edge_def Let_def)

lemma remove_edge_Inr:
  "remove_edge u v g = Inr g' \<Longrightarrow>
     node_set g' = node_set g \<and> edge_set g' = edge_set g - {(u, v)} \<and> (u, v) \<in> edge_set g"
  by (auto simp: remove_edge_def node_set_def edge_set_def split: if_splits)

lemma remove_edge_ok: "(u, v) \<in> edge_set g \<Longrightarrow> \<exists>g'. remove_edge u v g = Inr g'"
  by (simp add: remove_edge_def edge_set_def)

lemma node_set_remove_node: "node_set (remove_node_silent n g) = node_set g - {n}"
  by (auto simp: node_set_def remove_node_silent_def has_node_def)

lemma edge_set_remove_node_sub: "edge_set (remove_node_silent n g) \<subseteq> edge_set g"
  by (auto simp: edge_set_def remove_node_silent_def)

lemma edge_set_remove_node_sup:
  "{e \<in> edge_set g. fst e \<noteq> n \<and> snd e \<noteq> n} \<subseteq> edge_set (remove_node_silent n g)"
  by (auto simp: edge_set_def remove_node_silent_def)

lemma node_set_remove_nodes_from: "node_set (remove_nodes_from ns g) = node_set g - set ns"
  by (induction ns arbitrary: g) (auto simp: node_set_remove_node)

lemma edge_set_remove_nodes_from_sub: "edge_set (remove_nodes_from ns g) \<subseteq> edge_set g"
proof (induction ns arbitrary: g)
  case Nil
  show ?case by simp
next
  case (Cons n ns)
  have "edge_set (remove_nodes_from ns (remove_node_silent n g)) \<subseteq> edge_set (remove_node_silent n g)"
    by (rule Cons.IH)
  also have "\<dots> \<subseteq> edge_set g" by (rule edge_set_remove_node_sub)
  finally show ?case by simp
qed

lemma edge_set_remove_nodes_from_sup:
  "{e \<in> edge_set g. fst e \<notin> set ns \<and> snd e \<notin> set ns} \<subseteq> edge_set (remove_nodes_from ns g)"
proof (induction ns arbitrary: g)
  case Nil
  show ?case by simp
next
  case (Cons n ns)
  have "{e \<in> edge_set g. fst e \<notin> set (n # ns) \<and> snd e \<notin> set (n # ns)}
          \<subseteq> {e \<in> edge_set (remove_node_silent n g). fst e \<notin> set ns \<and> snd e \<notin> set ns}"
    using edge_set_remove_node_sup [of g n] by auto
  also have "\<dots> \<subseteq> edge_set (remove_nodes_from ns (remove_node_silent n g))"
    by (rule Cons.IH)
  finally show ?case by simp
qed

lemma distinct_add_node:
  "distinct (map fst (g_nodes g)) \<Longrightarrow> distinct (map fst (g_nodes (add_node n a g)))"
  by (auto simp: keys_add_node has_node_def)

lemma distinct_add_edge:
  "distinct (map fst (g_nodes g)) \<Longrightarrow> distinct (map fst (g_nodes (add_edge u v g)))"
  by (auto simp: add_edge_def has_node_def Let_def)

lemma distinct_remove_edge:
  "remove_edge u v g = Inr g' \<Longrightarrow> distinct (map fst (g_nodes g)) \<Longrightarrow> distinct (map fst (g_nodes g'))"
  by (auto simp: remove_edge_def split: if_splits)

lemma distinct_remove_node:
  "distinct (map fst (g_nodes g)) \<Longrightarrow> distinct (map fst (g_nodes (remove_node_silent n g)))"
  by (auto simp: remove_node_silent_def distinct_map_filter)

lemma distinct_remove_nodes_from:
  "distinct (map fst (g_nodes g)) \<Longrightarrow> distinct (map fst (g_nodes (remove_nodes_from ns g)))"
  by (induction ns arbitrary: g) (auto simp: distinct_remove_node)

lemma process_edge_Inr:
  assumes "process_edge M p e g = Inr g'"
  shows "node_set g \<subseteq> node_set g'"
    and "node_set g' \<subseteq> node_set g \<union>
           (if (fst e \<in> set M) \<noteq> (snd e \<in> set M)
            then {p} \<union> ({fst e, snd e} - set M) else {})"
    and "edge_set g - {e'. fst e' \<in> set M \<and> snd e' \<in> set M} \<subseteq> edge_set g'"
    and "edge_set g' \<subseteq> (edge_set g - (if fst e \<in> set M \<and> snd e \<in> set M then {e} else {})) \<union>
           {e'. (fst e' = p \<and> snd e' \<notin> set M) \<or> (snd e' = p \<and> fst e' \<notin> set M)}"
    and "distinct (map fst (g_nodes g)) \<Longrightarrow> distinct (map fst (g_nodes g'))"
  using assms
  by (auto simp: process_edge_def node_set_add_edge edge_set_add_edge distinct_add_edge
           dest: remove_edge_Inr distinct_remove_edge split: if_splits)

section \<open>The inner and the outer loop\<close>

lemma edge_loop_nodes_lower:
  "edge_loop M p es g = Inr g' \<Longrightarrow> node_set g \<subseteq> node_set g'"
proof (induction es arbitrary: g)
  case Nil
  then show ?case by simp
next
  case (Cons e es)
  from Cons.prems obtain g1 where s: "process_edge M p e g = Inr g1"
    and r: "edge_loop M p es g1 = Inr g'"
    by (auto split: sum.splits)
  from process_edge_Inr(1) [OF s] Cons.IH [OF r] show ?case by blast
qed

lemma edge_loop_nodes_upper:
  "edge_loop M p es g = Inr g' \<Longrightarrow>
     node_set g' \<subseteq> node_set g \<union> {p} \<union>
       {x. \<exists>e\<in>set es. (fst e \<in> set M) \<noteq> (snd e \<in> set M) \<and> (x = fst e \<or> x = snd e) \<and> x \<notin> set M}"
proof (induction es arbitrary: g)
  case Nil
  then show ?case by auto
next
  case (Cons e es)
  from Cons.prems obtain g1 where s: "process_edge M p e g = Inr g1"
    and r: "edge_loop M p es g1 = Inr g'"
    by (auto split: sum.splits)
  from process_edge_Inr(2) [OF s] Cons.IH [OF r] show ?case
    by (auto split: if_splits)
qed

lemma edge_loop_edges_lower:
  "edge_loop M p es g = Inr g' \<Longrightarrow>
     edge_set g - {e'. fst e' \<in> set M \<and> snd e' \<in> set M} \<subseteq> edge_set g'"
proof (induction es arbitrary: g)
  case Nil
  then show ?case by auto
next
  case (Cons e es)
  from Cons.prems obtain g1 where s: "process_edge M p e g = Inr g1"
    and r: "edge_loop M p es g1 = Inr g'"
    by (auto split: sum.splits)
  from process_edge_Inr(3) [OF s] Cons.IH [OF r] show ?case by blast
qed

lemma edge_loop_edges_upper:
  "edge_loop M p es g = Inr g' \<Longrightarrow>
     edge_set g' \<subseteq> (edge_set g - {e \<in> set es. fst e \<in> set M \<and> snd e \<in> set M}) \<union>
       {e'. (fst e' = p \<and> snd e' \<notin> set M) \<or> (snd e' = p \<and> fst e' \<notin> set M)}"
proof (induction es arbitrary: g)
  case Nil
  then show ?case by auto
next
  case (Cons e es)
  from Cons.prems obtain g1 where s: "process_edge M p e g = Inr g1"
    and r: "edge_loop M p es g1 = Inr g'"
    by (auto split: sum.splits)
  from process_edge_Inr(4) [OF s] Cons.IH [OF r] show ?case
    by (auto split: if_splits)
qed

lemma edge_loop_distinct:
  "edge_loop M p es g = Inr g' \<Longrightarrow> distinct (map fst (g_nodes g)) \<Longrightarrow>
     distinct (map fst (g_nodes g'))"
proof (induction es arbitrary: g)
  case Nil
  then show ?case by simp
next
  case (Cons e es)
  from Cons.prems obtain g1 where s: "process_edge M p e g = Inr g1"
    and r: "edge_loop M p es g1 = Inr g'"
    by (auto split: sum.splits)
  from process_edge_Inr(5) [OF s Cons.prems(2)] Cons.IH [OF r] show ?case by blast
qed

lemma process_edge_ok:
  assumes "fst e \<in> set M \<and> snd e \<in> set M \<longrightarrow> e \<in> edge_set g"
  shows "\<exists>g'. process_edge M p e g = Inr g'"
  using assms remove_edge_ok [of "fst e" "snd e" g]
  by (auto simp: process_edge_def)

lemma edge_loop_ok:
  "distinct es \<Longrightarrow>
   (\<forall>e\<in>set es. fst e \<in> set M \<and> snd e \<in> set M \<longrightarrow> e \<in> edge_set g) \<Longrightarrow>
   \<exists>g'. edge_loop M p es g = Inr g'"
proof (induction es arbitrary: g)
  case Nil
  then show ?case by simp
next
  case (Cons e es)
  from Cons.prems(2) have "fst e \<in> set M \<and> snd e \<in> set M \<longrightarrow> e \<in> edge_set g" by simp
  from process_edge_ok [OF this] obtain g1 where s: "process_edge M p e g = Inr g1" by blast
  have keep: "\<forall>e'\<in>set es. fst e' \<in> set M \<and> snd e' \<in> set M \<longrightarrow> e' \<in> edge_set g1"
  proof (intro ballI impI)
    fix e' assume m: "e' \<in> set es" and i: "fst e' \<in> set M \<and> snd e' \<in> set M"
    from Cons.prems(2) m i have "e' \<in> edge_set g" by simp
    moreover from Cons.prems(1) m have "e' \<noteq> e" by auto
    moreover from process_edge_Inr(4) [OF s] process_edge_Inr(3) [OF s]
    have "edge_set g - {e} \<subseteq> edge_set g1"
      using s by (auto simp: process_edge_def edge_set_add_edge dest: remove_edge_Inr split: if_splits)
    ultimately show "e' \<in> edge_set g1" by blast
  qed
  from Cons.prems(1) have "distinct es" by simp
  from Cons.IH [OF this keep] obtain g' where "edge_loop M p es g1 = Inr g'" by blast
  with s show ?case by simp
qed

lemma process_prefix_Inr:
  assumes "process_prefix L E p g = Inr g'"
  shows "module_nodes L p \<noteq> []"
    and "node_set g' \<subseteq> (node_set g \<union> {p} \<union>
           {x. \<exists>e\<in>set E. (fst e \<in> set (module_nodes L p)) \<noteq> (snd e \<in> set (module_nodes L p))
                \<and> (x = fst e \<or> x = snd e)}) - set (module_nodes L p)"
    and "insert p (node_set g) - set (module_nodes L p) \<subseteq> node_set g'"
    and "edge_set g' \<subseteq>
           (edge_set g - {e \<in> set E. fst e \<in> set (module_nodes L p) \<and> snd e \<in> set (module_nodes L p)}) \<union>
           {e'. (fst e' = p \<and> snd e' \<notin> set (module_nodes L p)) \<or>
                (snd e' = p \<and> fst e' \<notin> set (module_nodes L p))}"
    and "{e \<in> edge_set g. fst e \<notin> set (module_nodes L p) \<and> snd e \<notin> set (module_nodes L p)}
           \<subseteq> edge_set g'"
    and "distinct (map fst (g_nodes g)) \<Longrightarrow> distinct (map fst (g_nodes g'))"
proof -
  let ?M = "module_nodes L p"
  let ?g1 = "add_node p (module_node_attrs p) g"
  from assms have ne: "?M \<noteq> []"
    by (auto simp: process_prefix_def Let_def split: if_splits)
  with assms obtain g2 where l: "edge_loop ?M p E ?g1 = Inr g2"
    and r: "g' = remove_nodes_from ?M g2"
    by (auto simp: process_prefix_def Let_def split: if_splits sum.splits)
  show "?M \<noteq> []" by (rule ne)
  show "node_set g' \<subseteq> (node_set g \<union> {p} \<union>
           {x. \<exists>e\<in>set E. (fst e \<in> set ?M) \<noteq> (snd e \<in> set ?M) \<and> (x = fst e \<or> x = snd e)}) - set ?M"
    using edge_loop_nodes_upper [OF l]
    by (auto simp: r node_set_remove_nodes_from node_set_add_node)
  show "insert p (node_set g) - set ?M \<subseteq> node_set g'"
    using edge_loop_nodes_lower [OF l]
    by (auto simp: r node_set_remove_nodes_from node_set_add_node)
  show "edge_set g' \<subseteq> (edge_set g - {e \<in> set E. fst e \<in> set ?M \<and> snd e \<in> set ?M}) \<union>
           {e'. (fst e' = p \<and> snd e' \<notin> set ?M) \<or> (snd e' = p \<and> fst e' \<notin> set ?M)}"
    using edge_loop_edges_upper [OF l] edge_set_remove_nodes_from_sub [of ?M g2]
    by (auto simp: r edge_set_add_node)
  show "{e \<in> edge_set g. fst e \<notin> set ?M \<and> snd e \<notin> set ?M} \<subseteq> edge_set g'"
    using edge_loop_edges_lower [OF l] edge_set_remove_nodes_from_sup [of g2 ?M]
    by (auto simp: r edge_set_add_node)
  show "distinct (map fst (g_nodes g)) \<Longrightarrow> distinct (map fst (g_nodes g'))"
    using edge_loop_distinct [OF l]
    by (simp add: r distinct_remove_nodes_from distinct_add_node)
qed

lemma process_prefix_ok:
  assumes "distinct E" and "module_nodes L p \<noteq> []"
    and "\<forall>e\<in>set E. fst e \<in> set (module_nodes L p) \<and> snd e \<in> set (module_nodes L p)
            \<longrightarrow> e \<in> edge_set g"
  shows "\<exists>g'. process_prefix L E p g = Inr g'"
proof -
  from assms(3) have "\<forall>e\<in>set E. fst e \<in> set (module_nodes L p) \<and> snd e \<in> set (module_nodes L p)
            \<longrightarrow> e \<in> edge_set (add_node p (module_node_attrs p) g)"
    by (simp add: edge_set_add_node)
  from edge_loop_ok [OF assms(1) this] obtain g2
    where "edge_loop (module_nodes L p) p E (add_node p (module_node_attrs p) g) = Inr g2"
    by blast
  with assms(2) show ?thesis
    by (simp add: process_prefix_def Let_def)
qed

lemma process_prefix_empty:
  "module_nodes L p = [] \<Longrightarrow>
     process_prefix L E p g = Inl (ValueError (''Prefix not found: '' @ p @ ''.''))"
  by (simp add: process_prefix_def Let_def)

lemma prefix_loop_append:
  "prefix_loop L E (ps @ qs) g =
     (case prefix_loop L E ps g of Inl err \<Rightarrow> Inl err | Inr mg \<Rightarrow> prefix_loop L E qs mg)"
  by (induction ps arbitrary: g) (auto split: sum.splits)

lemma prefix_loop_distinct:
  "prefix_loop L E ps g = Inr out \<Longrightarrow> distinct (map fst (g_nodes g)) \<Longrightarrow>
     distinct (map fst (g_nodes out))"
proof (induction ps arbitrary: g)
  case Nil
  then show ?case by simp
next
  case (Cons p ps)
  from Cons.prems(1) obtain g1 where s: "process_prefix L E p g = Inr g1"
    and r: "prefix_loop L E ps g1 = Inr out"
    by (auto split: sum.splits)
  from process_prefix_Inr(6) [OF s Cons.prems(2)] Cons.IH [OF r] show ?case by blast
qed

lemma prefix_loop_nodes_lower:
  "prefix_loop L E ps g = Inr out \<Longrightarrow>
     (set ps \<union> node_set g) - (\<Union>p\<in>set ps. set (module_nodes L p)) \<subseteq> node_set out"
proof (induction ps arbitrary: g)
  case Nil
  then show ?case by simp
next
  case (Cons p ps)
  from Cons.prems(1) obtain g1 where s: "process_prefix L E p g = Inr g1"
    and r: "prefix_loop L E ps g1 = Inr out"
    by (auto split: sum.splits)
  from process_prefix_Inr(3) [OF s] Cons.IH [OF r] show ?case by auto
qed

lemma prefix_loop_nodes_upper:
  assumes "prefix_loop L E ps g = Inr out"
    and "set ps \<inter> Bad = {}"
    and "\<forall>p\<in>set ps. \<forall>e\<in>set E.
           (fst e \<in> set (module_nodes L p)) \<noteq> (snd e \<in> set (module_nodes L p)) \<longrightarrow>
           (fst e \<notin> set (module_nodes L p) \<longrightarrow> fst e \<notin> Bad) \<and>
           (snd e \<notin> set (module_nodes L p) \<longrightarrow> snd e \<notin> Bad)"
  shows "node_set out \<inter> Bad \<subseteq> node_set g \<inter> Bad - (\<Union>p\<in>set ps. set (module_nodes L p))"
  using assms
proof (induction ps arbitrary: g)
  case Nil
  then show ?case by simp
next
  case (Cons p ps)
  from Cons.prems(1) obtain g1 where s: "process_prefix L E p g = Inr g1"
    and r: "prefix_loop L E ps g1 = Inr out"
    by (auto split: sum.splits)
  have a: "set ps \<inter> Bad = {}" using Cons.prems(2) by auto
  have b: "\<forall>p\<in>set ps. \<forall>e\<in>set E.
           (fst e \<in> set (module_nodes L p)) \<noteq> (snd e \<in> set (module_nodes L p)) \<longrightarrow>
           (fst e \<notin> set (module_nodes L p) \<longrightarrow> fst e \<notin> Bad) \<and>
           (snd e \<notin> set (module_nodes L p) \<longrightarrow> snd e \<notin> Bad)"
    using Cons.prems(3) by simp
  have c: "\<forall>e\<in>set E.
           (fst e \<in> set (module_nodes L p)) \<noteq> (snd e \<in> set (module_nodes L p)) \<longrightarrow>
           (fst e \<notin> set (module_nodes L p) \<longrightarrow> fst e \<notin> Bad) \<and>
           (snd e \<notin> set (module_nodes L p) \<longrightarrow> snd e \<notin> Bad)"
    using Cons.prems(3) by simp
  have d: "p \<notin> Bad" using Cons.prems(2) by auto
  have step: "node_set g1 \<inter> Bad \<subseteq> node_set g \<inter> Bad - set (module_nodes L p)"
  proof
    fix x assume x: "x \<in> node_set g1 \<inter> Bad"
    then have "x \<in> node_set g1" and xb: "x \<in> Bad" by auto
    with process_prefix_Inr(2) [OF s]
    have xm: "x \<notin> set (module_nodes L p)" and
      cases: "x \<in> node_set g \<or> x = p \<or>
        (\<exists>e\<in>set E. (fst e \<in> set (module_nodes L p)) \<noteq> (snd e \<in> set (module_nodes L p))
                \<and> (x = fst e \<or> x = snd e))"
      by auto
    from cases xb d xm c have "x \<in> node_set g" by blast
    with xb xm show "x \<in> node_set g \<inter> Bad - set (module_nodes L p)" by simp
  qed
  from Cons.IH [OF r a b] step show ?case by auto
qed

lemma prefix_loop_ok:
  assumes "distinct E"
    and "\<forall>p\<in>set ps. module_nodes L p \<noteq> []"
    and "distinct ps"
    and "\<forall>p\<in>set ps. \<forall>q\<in>set ps. p \<noteq> q \<longrightarrow> set (module_nodes L p) \<inter> set (module_nodes L q) = {}"
    and "\<forall>p\<in>set ps. \<forall>e\<in>set E.
           fst e \<in> set (module_nodes L p) \<and> snd e \<in> set (module_nodes L p) \<longrightarrow> e \<in> edge_set g"
  shows "\<exists>out. prefix_loop L E ps g = Inr out"
  using assms(2-)
proof (induction ps arbitrary: g)
  case Nil
  then show ?case by simp
next
  case (Cons p ps)
  have "\<exists>g1. process_prefix L E p g = Inr g1"
    using Cons.prems(1,4) by (intro process_prefix_ok [OF assms(1)]) simp_all
  then obtain g1 where s: "process_prefix L E p g = Inr g1" by blast
  have keep: "\<forall>q\<in>set ps. \<forall>e\<in>set E.
           fst e \<in> set (module_nodes L q) \<and> snd e \<in> set (module_nodes L q) \<longrightarrow> e \<in> edge_set g1"
  proof (intro ballI impI)
    fix q e assume q: "q \<in> set ps" and e: "e \<in> set E"
      and i: "fst e \<in> set (module_nodes L q) \<and> snd e \<in> set (module_nodes L q)"
    from Cons.prems(2) q have "p \<noteq> q" by auto
    with Cons.prems(3) q have dj: "set (module_nodes L p) \<inter> set (module_nodes L q) = {}" by simp
    from Cons.prems(4) q e i have "e \<in> edge_set g" by simp
    moreover from dj i have "fst e \<notin> set (module_nodes L p) \<and> snd e \<notin> set (module_nodes L p)"
      by blast
    ultimately show "e \<in> edge_set g1" using process_prefix_Inr(5) [OF s] by blast
  qed
  have "\<exists>out. prefix_loop L E ps g1 = Inr out"
    using Cons.prems(1,2,3) by (intro Cons.IH keep) simp_all
  with s show ?case by simp
qed

lemma prefix_loop_edge_absent:
  "prefix_loop L E ps g = Inr out \<Longrightarrow> e \<notin> edge_set g \<Longrightarrow> fst e \<notin> set ps \<Longrightarrow>
     snd e \<notin> set ps \<Longrightarrow> e \<notin> edge_set out"
proof (induction ps arbitrary: g)
  case Nil
  then show ?case by simp
next
  case (Cons p ps)
  from Cons.prems(1) obtain g1 where s: "process_prefix L E p g = Inr g1"
    and r: "prefix_loop L E ps g1 = Inr out"
    by (auto split: sum.splits)
  from process_prefix_Inr(4) [OF s] Cons.prems(2,3,4) have "e \<notin> edge_set g1" by auto
  from Cons.IH [OF r this] Cons.prems(3,4) show ?case by simp
qed

lemma process_prefix_internal_absent:
  assumes "process_prefix L E p g = Inr g1" and "e \<in> set E"
    and "fst e \<in> set (module_nodes L p)" and "snd e \<in> set (module_nodes L p)"
  shows "e \<notin> edge_set g1"
  using process_prefix_Inr(4) [OF assms(1)] assms(2,3,4) by auto

section \<open>Consequences of the preconditions\<close>

lemma module_nodes_iff:
  "n \<in> set (module_nodes L p) \<longleftrightarrow> (\<exists>v. (n, v) \<in> set L \<and> startswith v p)"
  by (force simp: module_nodes_def)

lemma keys_map_filter:
  "map fst (List.map_filter (\<lambda>kd. map_option (Pair (fst kd)) (h kd)) xs) =
     map fst (filter (\<lambda>kd. h kd \<noteq> None) xs)"
  by (induction xs) (auto simp: List.map_filter_def)

lemma keys_clean_labels:
  "map fst (clean_labels G) =
     map fst (filter (\<lambda>kd. map_of (snd kd) ''label'' \<noteq> None) (g_nodes G))"
proof -
  have "map fst (clean_labels G) = map fst (get_node_attributes G ''label'')"
    by (simp add: clean_labels_def comp_def)
  then show ?thesis
    by (simp add: get_node_attributes_def keys_map_filter)
qed

lemma distinct_clean_labels:
  "distinct (map fst (g_nodes G)) \<Longrightarrow> distinct (map fst (clean_labels G))"
  by (simp add: keys_clean_labels distinct_map_filter)

lemma module_nodes_are_nodes:
  "n \<in> set (module_nodes (clean_labels G) p) \<Longrightarrow> n \<in> node_set G"
proof -
  assume "n \<in> set (module_nodes (clean_labels G) p)"
  then have "n \<in> set (map fst (clean_labels G))"
    by (auto simp: module_nodes_def)
  then show ?thesis
    by (auto simp: keys_clean_labels node_set_def)
qed

lemma filter_two:
  assumes "p \<in> set P" "q \<in> set P" "p \<noteq> q" "f p" "f q"
  shows "2 \<le> length (filter f P)"
proof -
  have "{p, q} \<subseteq> set (filter f P)" using assms by auto
  then have "card {p, q} \<le> card (set (filter f P))" by (intro card_mono) auto
  also have "\<dots> \<le> length (filter f P)" by (rule card_length)
  finally show ?thesis using assms(3) by simp
qed

lemma groups_disjoint:
  assumes d: "distinct (map fst L)" and no: "non_overlapping L P"
    and "p \<in> set P" "q \<in> set P" "p \<noteq> q"
  shows "set (module_nodes L p) \<inter> set (module_nodes L q) = {}"
proof (rule ccontr)
  assume "set (module_nodes L p) \<inter> set (module_nodes L q) \<noteq> {}"
  then obtain n where "n \<in> set (module_nodes L p)" "n \<in> set (module_nodes L q)" by blast
  then obtain v w where v: "(n, v) \<in> set L" "startswith v p"
    and w: "(n, w) \<in> set L" "startswith w q"
    by (auto simp: module_nodes_iff)
  from d v(1) w(1) have "v = w" by (rule eq_key_imp_eq_value)
  with v w assms(3,4,5) have "2 \<le> length (filter (\<lambda>p. startswith v p) P)"
    by (intro filter_two [of p P q]) auto
  moreover from no v(1) have "length (filter (\<lambda>p. startswith (snd (n, v)) p) P) \<le> 1"
    unfolding non_overlapping_def list_all_iff by blast
  ultimately show False by simp
qed

lemma distinct_prefixes:
  assumes no: "non_overlapping L P" and va: "valid_prefixes L P"
  shows "distinct P"
proof (rule ccontr)
  assume "\<not> distinct P"
  then obtain xs ys zs p where P: "P = xs @ [p] @ ys @ [p] @ zs"
    using not_distinct_decomp by blast
  then have "p \<in> set P" by simp
  with va have "module_nodes L p \<noteq> []"
    unfolding valid_prefixes_def list_all_iff by blast
  then obtain n where "n \<in> set (module_nodes L p)" by (cases "module_nodes L p") auto
  then obtain v where v: "(n, v) \<in> set L" "startswith v p"
    by (auto simp: module_nodes_iff)
  from v(2) have "2 \<le> length (filter (\<lambda>p. startswith v p) P)" by (simp add: P)
  moreover from no v(1) have "length (filter (\<lambda>p. startswith (snd (n, v)) p) P) \<le> 1"
    unfolding non_overlapping_def list_all_iff by blast
  ultimately show False by simp
qed

lemma modularise_ok:
  assumes wf: "wf_digraph G"
    and va: "valid_prefixes (clean_labels G) P"
    and no: "non_overlapping (clean_labels G) P"
  shows "\<exists>out. modularise_snakemake_graph G P = Inr out"
proof -
  let ?L = "clean_labels G"
  from wf have dE: "distinct (g_edges G)" and dN: "distinct (map fst (g_nodes G))"
    by (simp_all add: wf_digraph_def)
  have 1: "\<forall>p\<in>set P. module_nodes ?L p \<noteq> []"
    using va unfolding valid_prefixes_def list_all_iff .
  have 2: "distinct P" using no va by (rule distinct_prefixes)
  have 3: "\<forall>p\<in>set P. \<forall>q\<in>set P. p \<noteq> q \<longrightarrow>
             set (module_nodes ?L p) \<inter> set (module_nodes ?L q) = {}"
    using groups_disjoint [OF distinct_clean_labels [OF dN] no] by blast
  have 4: "\<forall>p\<in>set P. \<forall>e\<in>set (g_edges G).
           fst e \<in> set (module_nodes ?L p) \<and> snd e \<in> set (module_nodes ?L p) \<longrightarrow> e \<in> edge_set G"
    by (simp add: edge_set_def)
  from prefix_loop_ok [OF dE 1 2 3 4] show ?thesis
    by (simp add: modularise_snakemake_graph_def)
qed

lemma count_list_distinct:
  "distinct xs \<Longrightarrow> x \<in> set xs \<Longrightarrow> count_list xs x = 1"
  by (induction xs) (auto simp: count_list_0_iff)


section \<open>Groups are removed and replaced by proxy nodes\<close>

text \<open>
  C1, as stated, fails: in \<open>colliding_graph\<close> the only prefix \<open>mod\<close> matches the node
  \<open>mod\<close> and nothing else, the prefix is valid and no label matches two prefixes, the
  routine returns the graph that has \<open>C\<close> as its only node, and so no node identified by
  the prefix is in the output. \<open>add_node\<close> finds the node \<open>mod\<close> in the graph and only
  updates its attributes; \<open>remove_nodes_from\<close> then removes it as a member of the group.
\<close>

theorem proxy_missing_counterexample:
  "wf_digraph colliding_graph \<and>
   valid_prefixes (clean_labels colliding_graph) [''mod''] \<and>
   non_overlapping (clean_labels colliding_graph) [''mod''] \<and>
   modularise_snakemake_graph colliding_graph [''mod''] =
     Inr \<lparr>g_nodes = [(''C'', [(''label'', ''other'')])], g_edges = []\<rparr> \<and>
   count_list (map fst [(''C'', [(''label'', ''other'')])]) ''mod'' = 0"
  by code_simp

text \<open>
  C1, amended: for every well-formed graph \<open>G\<close> and every sequence \<open>P\<close> of prefixes such
  that each prefix matches at least one node, no node's cleaned label matches more than one
  prefix, no prefix is the identifier of a node of \<open>G\<close>, and no edge of \<open>G\<close> joins members
  of two different groups, the routine returns a graph in which no node of \<open>G\<close> whose
  cleaned label starts with a prefix of \<open>P\<close> is present, and in which each prefix of \<open>P\<close>
  identifies exactly one node.
\<close>

theorem modularise_removes_groups_adds_proxies:
  assumes wf: "wf_digraph G"
    and va: "valid_prefixes (clean_labels G) P"
    and no: "non_overlapping (clean_labels G) P"
    and np: "no_prefix_is_node G P"
    and nc: "no_cross_group_edges (clean_labels G) P (g_edges G)"
  shows "\<exists>out. modularise_snakemake_graph G P = Inr out \<and>
           (\<forall>p\<in>set P. \<forall>n\<in>set (module_nodes (clean_labels G) p). n \<notin> node_set out) \<and>
           (\<forall>p\<in>set P. count_list (map fst (g_nodes out)) p = 1)"
proof -
  let ?L = "clean_labels G"
  let ?E = "g_edges G"
  let ?Bad = "\<Union>p\<in>set P. set (module_nodes ?L p)"
  from modularise_ok [OF wf va no] obtain out
    where out: "modularise_snakemake_graph G P = Inr out" by blast
  then have loop: "prefix_loop ?L ?E P G = Inr out"
    by (simp add: modularise_snakemake_graph_def)
  from wf have dN: "distinct (map fst (g_nodes G))" by (simp add: wf_digraph_def)
  have pb: "set P \<inter> ?Bad = {}"
  proof (rule ccontr)
    assume "set P \<inter> ?Bad \<noteq> {}"
    then obtain p q where "p \<in> set P" "q \<in> set P" "p \<in> set (module_nodes ?L q)" by blast
    then have "p \<in> node_set G" "\<not> has_node G p"
      using module_nodes_are_nodes np
      unfolding no_prefix_is_node_def list_all_iff by blast+
    then show False by (simp add: node_set_def has_node_def)
  qed
  have cross: "\<forall>p\<in>set P. \<forall>e\<in>set ?E.
           (fst e \<in> set (module_nodes ?L p)) \<noteq> (snd e \<in> set (module_nodes ?L p)) \<longrightarrow>
           (fst e \<notin> set (module_nodes ?L p) \<longrightarrow> fst e \<notin> ?Bad) \<and>
           (snd e \<notin> set (module_nodes ?L p) \<longrightarrow> snd e \<notin> ?Bad)"
  proof (intro ballI impI)
    fix p e assume p: "p \<in> set P" and e: "e \<in> set ?E"
      and x: "(fst e \<in> set (module_nodes ?L p)) \<noteq> (snd e \<in> set (module_nodes ?L p))"
    from nc e have g: "groups_of ?L P (fst e) = [] \<or> groups_of ?L P (snd e) = [] \<or>
                    groups_of ?L P (fst e) = groups_of ?L P (snd e)"
      unfolding no_cross_group_edges_def list_all_iff by blast
    have mem: "\<And>n q. q \<in> set (groups_of ?L P n) \<longleftrightarrow> q \<in> set P \<and> n \<in> set (module_nodes ?L q)"
      by (auto simp: groups_of_def)
    have bad: "\<And>n. n \<in> ?Bad \<longleftrightarrow> groups_of ?L P n \<noteq> []"
    proof -
      fix n
      have "groups_of ?L P n \<noteq> [] \<longleftrightarrow> (\<exists>q. q \<in> set (groups_of ?L P n))"
        by (cases "groups_of ?L P n") auto
      then show "n \<in> ?Bad \<longleftrightarrow> groups_of ?L P n \<noteq> []" by (auto simp: mem)
    qed
    from x p have ne: "set (groups_of ?L P (fst e)) \<noteq> set (groups_of ?L P (snd e))"
      using mem by blast
    show "(fst e \<notin> set (module_nodes ?L p) \<longrightarrow> fst e \<notin> ?Bad) \<and>
           (snd e \<notin> set (module_nodes ?L p) \<longrightarrow> snd e \<notin> ?Bad)"
    proof (cases "fst e \<in> set (module_nodes ?L p)")
      case True
      with p have "groups_of ?L P (fst e) \<noteq> []" using mem [of p "fst e"] by auto
      with g ne have "groups_of ?L P (snd e) = []" by auto
      with True show ?thesis using bad by blast
    next
      case False
      with x have "snd e \<in> set (module_nodes ?L p)" by simp
      with p have "groups_of ?L P (snd e) \<noteq> []" using mem [of p "snd e"] by auto
      with g ne have "groups_of ?L P (fst e) = []" by auto
      with False x show ?thesis using bad by blast
    qed
  qed
  from prefix_loop_nodes_upper [OF loop pb cross]
  have gone: "node_set out \<inter> ?Bad = {}" by blast
  have proxies: "set P \<subseteq> node_set out"
    using prefix_loop_nodes_lower [OF loop] pb by blast
  have dout: "distinct (map fst (g_nodes out))"
    using prefix_loop_distinct [OF loop dN] .
  have "\<forall>p\<in>set P. count_list (map fst (g_nodes out)) p = 1"
  proof
    fix p assume "p \<in> set P"
    with proxies have "p \<in> set (map fst (g_nodes out))" by (auto simp: node_set_def)
    with dout show "count_list (map fst (g_nodes out)) p = 1" by (rule count_list_distinct)
  qed
  moreover have "\<forall>p\<in>set P. \<forall>n\<in>set (module_nodes ?L p). n \<notin> node_set out"
    using gone by blast
  ultimately show ?thesis using out by blast
qed

text \<open>
  The amended C1 at \<open>separated_graph\<close> with the prefixes \<open>m1\<close> and \<open>m2\<close>: all five
  preconditions hold there.
\<close>

theorem modularise_removes_groups_adds_proxies_witness:
  "wf_digraph separated_graph \<and>
   valid_prefixes (clean_labels separated_graph) [''m1'', ''m2''] \<and>
   non_overlapping (clean_labels separated_graph) [''m1'', ''m2''] \<and>
   no_prefix_is_node separated_graph [''m1'', ''m2''] \<and>
   no_cross_group_edges (clean_labels separated_graph) [''m1'', ''m2''] (g_edges separated_graph) \<and>
   (\<exists>out. modularise_snakemake_graph separated_graph [''m1'', ''m2''] = Inr out \<and>
      (\<forall>p\<in>set [''m1'', ''m2''].
         \<forall>n\<in>set (module_nodes (clean_labels separated_graph) p). n \<notin> node_set out) \<and>
      (\<forall>p\<in>set [''m1'', ''m2'']. count_list (map fst (g_nodes out)) p = 1))"
proof -
  have h1: "wf_digraph separated_graph" by code_simp
  have h2: "valid_prefixes (clean_labels separated_graph) [''m1'', ''m2'']" by code_simp
  have h3: "non_overlapping (clean_labels separated_graph) [''m1'', ''m2'']" by code_simp
  have h4: "no_prefix_is_node separated_graph [''m1'', ''m2'']" by code_simp
  have h5: "no_cross_group_edges (clean_labels separated_graph) [''m1'', ''m2'']
              (g_edges separated_graph)"
    by code_simp
  show ?thesis
    by (intro conjI h1 h2 h3 h4 h5 modularise_removes_groups_adds_proxies [OF h1 h2 h3 h4 h5])
qed

section \<open>Edges that cross a group boundary\<close>

text \<open>
  C2: the code at \<open>two_module_graph\<close>, whose only edge goes from the member \<open>A\<close> of
  \<open>m1\<close> to the member \<open>B\<close> of \<open>m2\<close>. After the first prefix the graph holds the
  redirected edge from the proxy \<open>m1\<close> to \<open>B\<close>. The second pass goes through the edges of
  the input graph again, not through those of the current graph: it meets the edge from
  \<open>A\<close> to \<open>B\<close>, adds an edge from \<open>A\<close> to the proxy \<open>m2\<close>, which puts the removed node
  \<open>A\<close> back without attributes, and the redirected edge disappears with \<open>B\<close>. The output
  has no edge that leaves the proxy \<open>m1\<close>.
\<close>

theorem stale_edges_lose_redirected_edge:
  "modularise_snakemake_graph two_module_graph [''m1''] =
     Inr \<lparr>g_nodes = [(''B'', [(''label'', ''m2.b'')]),
                      (''m1'', [(''label'', ''m1''), (''color'', ''0 0 0''), (''style'', ''diagonals'')])],
          g_edges = [(''m1'', ''B'')]\<rparr> \<and>
   modularise_snakemake_graph two_module_graph [''m1'', ''m2''] =
     Inr \<lparr>g_nodes = [(''m1'', [(''label'', ''m1''), (''color'', ''0 0 0''), (''style'', ''diagonals'')]),
                      (''m2'', [(''label'', ''m2''), (''color'', ''0 0 0''), (''style'', ''diagonals'')]),
                      (''A'', [])],
          g_edges = [(''A'', ''m2'')]\<rparr>"
  by code_simp

section \<open>Prefixes that match no node\<close>

text \<open>
  C3, as stated, fails: the labels are read once from the input graph, not from the
  current graph. In \<open>single_rule_graph\<close> the label of \<open>A\<close> starts with \<open>m\<close> and with
  \<open>m1\<close>. After the prefix \<open>m\<close> the current graph holds the proxy \<open>m\<close> alone, and no
  cleaned label of that graph starts with \<open>m1\<close>; all the same the routine, given \<open>m\<close> and
  then \<open>m1\<close>, raises no error and returns a graph.
\<close>

theorem prefix_not_in_current_graph_counterexample:
  "modularise_snakemake_graph single_rule_graph [''m''] =
     Inr \<lparr>g_nodes = [(''m'', [(''label'', ''m''), (''color'', ''0 0 0''), (''style'', ''diagonals'')])],
          g_edges = []\<rparr> \<and>
   module_nodes
     (clean_labels
        \<lparr>g_nodes = [(''m'', [(''label'', ''m''), (''color'', ''0 0 0''), (''style'', ''diagonals'')])],
         g_edges = []\<rparr>) ''m1'' = [] \<and>
   modularise_snakemake_graph single_rule_graph [''m'', ''m1''] =
     Inr \<lparr>g_nodes = [(''m'', [(''label'', ''m''), (''color'', ''0 0 0''), (''style'', ''diagonals'')]),
                      (''m1'', [(''label'', ''m1''), (''color'', ''0 0 0''), (''style'', ''diagonals'')])],
          g_edges = []\<rparr>"
  by code_simp

text \<open>
  C3, amended: for every prefix \<open>p\<close> of the sequence, if no node of the input graph has a
  cleaned label that starts with \<open>p\<close>, then, unless one of the prefixes before \<open>p\<close> has
  already raised an error, the routine fails with the \<open>ValueError\<close> whose message is
  \<open>Prefix not found: p.\<close>, whatever prefixes follow \<open>p\<close>.
\<close>

theorem prefix_not_found_fails:
  assumes "module_nodes (clean_labels G) p = []"
  shows "modularise_snakemake_graph G (ps @ p # qs) =
           (case modularise_snakemake_graph G ps of
              Inl err \<Rightarrow> Inl err
            | Inr mg \<Rightarrow> Inl (ValueError (''Prefix not found: '' @ p @ ''.'')))"
  using assms
  by (simp add: modularise_snakemake_graph_def prefix_loop_append process_prefix_empty
           split: sum.splits)

text \<open>
  The amended C3 at the scenario graph: \<open>module_x\<close> is processed, \<open>module_fail\<close> matches
  no label and raises, \<open>other\<close> is never reached.
\<close>

theorem prefix_not_found_fails_witness:
  "module_nodes (clean_labels scenario_graph) ''module_fail'' = [] \<and>
   modularise_snakemake_graph scenario_graph [''module_x'', ''module_fail'', ''other''] =
     Inl (ValueError ''Prefix not found: module_fail.'')"
proof -
  have h: "module_nodes (clean_labels scenario_graph) ''module_fail'' = []" by code_simp
  have e: "modularise_snakemake_graph scenario_graph [''module_x''] =
             Inr \<lparr>g_nodes = [(''C'', [(''label'', ''other'')]),
                              (''module_x'', [(''label'', ''module_x''), (''color'', ''0 0 0''),
                                              (''style'', ''diagonals'')])],
                  g_edges = [(''C'', ''module_x'')]\<rparr>"
    by code_simp
  from prefix_not_found_fails [OF h, of "[''module_x'']" "[''other'']"] e h
  show ?thesis by simp
qed

section \<open>The scenario of the specification\<close>

text \<open>
  C4: for the graph with the nodes A (label \<open>module_x.rule1\<close>), B (label
  \<open>module_x.rule2\<close>) and C (label \<open>other\<close>) and the edges from C to A and from A to B,
  the routine with the single prefix \<open>module_x\<close> returns a graph whose nodes are exactly
  C and \<open>module_x\<close> and whose only edge goes from C to \<open>module_x\<close>.
\<close>

theorem scenario_result:
  "map_sum id (\<lambda>g. (node_set g, edge_set g))
     (modularise_snakemake_graph scenario_graph [''module_x'']) =
   Inr ({''C'', ''module_x''}, {(''C'', ''module_x'')})"
  unfolding scenario_graph_def by code_simp

section \<open>Edges inside a group\<close>

text \<open>
  C5, as stated, fails: in \<open>renamed_graph\<close> the nodes \<open>q\<close> and \<open>v\<close> form the group of the
  prefix \<open>p\<close>, the node \<open>x\<close> the group of the prefix \<open>q\<close>; both prefixes are valid and no
  label matches both. The edge from \<open>q\<close> to \<open>v\<close> lies inside the group of \<open>p\<close> and is in
  the output: the proxy of the second group bears the name of the node \<open>q\<close>, and the edge
  from \<open>x\<close> to \<open>v\<close> becomes an edge from that proxy to \<open>v\<close>.
\<close>

theorem internal_edge_present_counterexample:
  "wf_digraph renamed_graph \<and>
   valid_prefixes (clean_labels renamed_graph) [''p'', ''q''] \<and>
   non_overlapping (clean_labels renamed_graph) [''p'', ''q''] \<and>
   (''q'', ''v'') \<in> set (g_edges renamed_graph) \<and>
   ''q'' \<in> set (module_nodes (clean_labels renamed_graph) ''p'') \<and>
   ''v'' \<in> set (module_nodes (clean_labels renamed_graph) ''p'') \<and>
   modularise_snakemake_graph renamed_graph [''p'', ''q''] =
     Inr \<lparr>g_nodes = [(''p'', [(''label'', ''p''), (''color'', ''0 0 0''), (''style'', ''diagonals'')]),
                      (''q'', [(''label'', ''q''), (''color'', ''0 0 0''), (''style'', ''diagonals'')]),
                      (''v'', [])],
          g_edges = [(''q'', ''v'')]\<rparr>"
  by code_simp

text \<open>
  C5, amended: for every well-formed graph and every valid non-overlapping prefix sequence
  the routine returns a graph, and every edge of the input both of whose endpoints belong
  to the same group, and neither of whose endpoints is identified by a string that is one
  of the prefixes, is absent from that graph.
\<close>

theorem modularise_drops_internal_edges:
  assumes wf: "wf_digraph G"
    and va: "valid_prefixes (clean_labels G) P"
    and no: "non_overlapping (clean_labels G) P"
  shows "\<exists>out. modularise_snakemake_graph G P = Inr out \<and>
           (\<forall>p\<in>set P. \<forall>e\<in>set (g_edges G).
              fst e \<in> set (module_nodes (clean_labels G) p) \<and>
              snd e \<in> set (module_nodes (clean_labels G) p) \<and>
              fst e \<notin> set P \<and> snd e \<notin> set P \<longrightarrow> e \<notin> edge_set out)"
proof -
  let ?L = "clean_labels G"
  let ?E = "g_edges G"
  from modularise_ok [OF wf va no] obtain out
    where out: "modularise_snakemake_graph G P = Inr out" by blast
  then have loop: "prefix_loop ?L ?E P G = Inr out"
    by (simp add: modularise_snakemake_graph_def)
  have "\<forall>p\<in>set P. \<forall>e\<in>set ?E.
              fst e \<in> set (module_nodes ?L p) \<and> snd e \<in> set (module_nodes ?L p) \<and>
              fst e \<notin> set P \<and> snd e \<notin> set P \<longrightarrow> e \<notin> edge_set out"
  proof (intro ballI impI)
    fix p e assume p: "p \<in> set P" and e: "e \<in> set ?E"
      and h: "fst e \<in> set (module_nodes ?L p) \<and> snd e \<in> set (module_nodes ?L p) \<and>
              fst e \<notin> set P \<and> snd e \<notin> set P"
    from p obtain ps qs where P: "P = ps @ p # qs" by (auto dest: split_list)
    from loop obtain g0 g1 where a: "prefix_loop ?L ?E ps G = Inr g0"
      and b: "process_prefix ?L ?E p g0 = Inr g1"
      and c: "prefix_loop ?L ?E qs g1 = Inr out"
      by (auto simp: P prefix_loop_append split: sum.splits)
    from process_prefix_internal_absent [OF b e] h have "e \<notin> edge_set g1" by simp
    from prefix_loop_edge_absent [OF c this] h show "e \<notin> edge_set out" by (simp add: P)
  qed
  with out show ?thesis by blast
qed

text \<open>
  The amended C5 at the scenario graph: the edge from A to B lies inside the group of
  \<open>module_x\<close> and is not in the output.
\<close>

theorem modularise_drops_internal_edges_witness:
  "wf_digraph scenario_graph \<and>
   valid_prefixes (clean_labels scenario_graph) [''module_x''] \<and>
   non_overlapping (clean_labels scenario_graph) [''module_x''] \<and>
   (''A'', ''B'') \<in> set (g_edges scenario_graph) \<and>
   ''A'' \<in> set (module_nodes (clean_labels scenario_graph) ''module_x'') \<and>
   ''B'' \<in> set (module_nodes (clean_labels scenario_graph) ''module_x'') \<and>
   ''A'' \<notin> set [''module_x''] \<and> ''B'' \<notin> set [''module_x''] \<and>
   (\<exists>out. modularise_snakemake_graph scenario_graph [''module_x''] = Inr out \<and>
      (''A'', ''B'') \<notin> edge_set out)"
proof -
  have h1: "wf_digraph scenario_graph" by code_simp
  have h2: "valid_prefixes (clean_labels scenario_graph) [''module_x'']" by code_simp
  have h3: "non_overlapping (clean_labels scenario_graph) [''module_x'']" by code_simp
  have e: "(''A'', ''B'') \<in> set (g_edges scenario_graph)" by code_simp
  have a: "''A'' \<in> set (module_nodes (clean_labels scenario_graph) ''module_x'')" by code_simp
  have b: "''B'' \<in> set (module_nodes (clean_labels scenario_graph) ''module_x'')" by code_simp
  have n: "''A'' \<notin> set [''module_x'']" "''B'' \<notin> set [''module_x'']" by simp_all
  from modularise_drops_internal_edges [OF h1 h2 h3] obtain out
    where o: "modularise_snakemake_graph scenario_graph [''module_x''] = Inr out"
      and d: "\<forall>p\<in>set [''module_x'']. \<forall>e\<in>set (g_edges scenario_graph).
              fst e \<in> set (module_nodes (clean_labels scenario_graph) p) \<and>
              snd e \<in> set (module_nodes (clean_labels scenario_graph) p) \<and>
              fst e \<notin> set [''module_x''] \<and> snd e \<notin> set [''module_x''] \<longrightarrow> e \<notin> edge_set out"
    by blast
  from d e a b n have "(''A'', ''B'') \<notin> edge_set out" by fastforce
  with o have "\<exists>out. modularise_snakemake_graph scenario_graph [''module_x''] = Inr out \<and>
      (''A'', ''B'') \<notin> edge_set out" by blast
  with h1 h2 h3 e a b n show ?thesis by blast
qed

section \<open>The empty prefix list\<close>

text \<open>
  C6: with an empty prefix list the routine returns a graph equal to its input, so in
  particular with the same set of nodes and the same set of edges.
\<close>

theorem modularise_empty_prefixes:
  "modularise_snakemake_graph G [] = Inr G"
  by (simp add: modularise_snakemake_graph_def)

section \<open>The input graph is not changed\<close>

lemma process_edge_at_frame:
  "process_edge_at m M p e h = (res, h') \<Longrightarrow>
     length h' = length h \<and> (\<forall>a. a \<noteq> m \<longrightarrow> h' ! a = h ! a)"
  by (auto simp: process_edge_at_def remove_edge_at_def add_edge_at_def
           split: if_splits sum.splits)

lemma edge_loop_at_frame:
  "edge_loop_at m M p es h = (res, h') \<Longrightarrow>
     length h' = length h \<and> (\<forall>a. a \<noteq> m \<longrightarrow> h' ! a = h ! a)"
proof (induction es arbitrary: h)
  case Nil
  then show ?case by simp
next
  case (Cons e es)
  obtain r1 h1 where s: "process_edge_at m M p e h = (r1, h1)" by (cases "process_edge_at m M p e h")
  note f = process_edge_at_frame [OF s]
  show ?case
  proof (cases r1)
    case None
    with Cons.prems s have "edge_loop_at m M p es h1 = (res, h')" by simp
    from Cons.IH [OF this] f show ?thesis by simp
  next
    case (Some err)
    with Cons.prems s have "h' = h1" by simp
    with f show ?thesis by simp
  qed
qed

lemma process_prefix_at_frame:
  assumes "process_prefix_at r m L p h = (res, h')"
  shows "length h' = length h \<and> (\<forall>a. a \<noteq> m \<longrightarrow> h' ! a = h ! a)"
proof -
  let ?h1 = "add_node_at m p (module_node_attrs p) h"
  have f1: "length ?h1 = length h \<and> (\<forall>a. a \<noteq> m \<longrightarrow> ?h1 ! a = h ! a)"
    by (simp add: add_node_at_def)
  show ?thesis
  proof (cases "module_nodes L p = []")
    case True
    with assms have "h' = ?h1" by (simp add: process_prefix_at_def Let_def)
    with f1 show ?thesis by simp
  next
    case False
    obtain r2 h2 where l: "edge_loop_at m (module_nodes L p) p (g_edges (?h1 ! r)) ?h1 = (r2, h2)"
      by (cases "edge_loop_at m (module_nodes L p) p (g_edges (?h1 ! r)) ?h1")
    note f2 = edge_loop_at_frame [OF l]
    from assms False l have "h' = h2 \<or> h' = remove_nodes_from_at m (module_nodes L p) h2"
      by (cases r2) (auto simp: process_prefix_at_def Let_def)
    with f1 f2 show ?thesis by (auto simp: remove_nodes_from_at_def)
  qed
qed

lemma prefix_loop_at_frame:
  "prefix_loop_at r m L ps h = (res, h') \<Longrightarrow>
     length h' = length h \<and> (\<forall>a. a \<noteq> m \<longrightarrow> h' ! a = h ! a)"
proof (induction ps arbitrary: h)
  case Nil
  then show ?case by simp
next
  case (Cons p ps)
  obtain r1 h1 where s: "process_prefix_at r m L p h = (r1, h1)"
    by (cases "process_prefix_at r m L p h")
  note f = process_prefix_at_frame [OF s]
  show ?case
  proof (cases r1)
    case None
    with Cons.prems s have "prefix_loop_at r m L ps h1 = (res, h')" by simp
    from Cons.IH [OF this] f show ?thesis by simp
  next
    case (Some err)
    with Cons.prems s have "h' = h1" by simp
    with f show ?thesis by simp
  qed
qed

lemma process_edge_at_pure:
  assumes "m < length h"
  shows "process_edge_at m M p e h =
     (case process_edge M p e (h ! m) of Inl err \<Rightarrow> (Some err, h) | Inr g \<Rightarrow> (None, h[m := g]))"
  using assms
  by (auto simp: process_edge_at_def process_edge_def remove_edge_at_def add_edge_at_def
           split: sum.splits)

lemma edge_loop_at_pure:
  "m < length h \<Longrightarrow>
   (case edge_loop M p es (h ! m) of
      Inl err \<Rightarrow> fst (edge_loop_at m M p es h) = Some err
    | Inr g \<Rightarrow> edge_loop_at m M p es h = (None, h[m := g]))"
proof (induction es arbitrary: h)
  case Nil
  then show ?case by simp
next
  case (Cons e es)
  show ?case
  proof (cases "process_edge M p e (h ! m)")
    case (Inl err)
    with Cons.prems show ?thesis by (simp add: process_edge_at_pure)
  next
    case (Inr g)
    from Cons.prems have "m < length (h[m := g])" by simp
    from Cons.IH [OF this] Cons.prems Inr show ?thesis
      by (simp add: process_edge_at_pure split: sum.splits)
  qed
qed

lemma process_prefix_at_pure:
  assumes "m < length h" and "r < length h" and "r \<noteq> m"
  shows "(case process_prefix L (g_edges (h ! r)) p (h ! m) of
      Inl err \<Rightarrow> fst (process_prefix_at r m L p h) = Some err
    | Inr g \<Rightarrow> process_prefix_at r m L p h = (None, h[m := g]))"
proof -
  let ?h1 = "add_node_at m p (module_node_attrs p) h"
  have h1: "m < length ?h1" "?h1 ! r = h ! r" "?h1 ! m = add_node p (module_node_attrs p) (h ! m)"
    using assms by (simp_all add: add_node_at_def)
  show ?thesis
  proof (cases "module_nodes L p = []")
    case True
    then show ?thesis by (simp add: process_prefix_def process_prefix_at_def Let_def)
  next
    case False
    from edge_loop_at_pure [OF h1(1), of "module_nodes L p" p "g_edges (h ! r)"] False h1 assms
    show ?thesis
      by (auto simp: process_prefix_def process_prefix_at_def Let_def remove_nodes_from_at_def
                     add_node_at_def
               split: sum.splits option.splits prod.splits)
  qed
qed

lemma prefix_loop_at_pure:
  "m < length h \<Longrightarrow> r < length h \<Longrightarrow> r \<noteq> m \<Longrightarrow>
   (case prefix_loop L (g_edges (h ! r)) ps (h ! m) of
      Inl err \<Rightarrow> fst (prefix_loop_at r m L ps h) = Some err
    | Inr g \<Rightarrow> prefix_loop_at r m L ps h = (None, h[m := g]))"
proof (induction ps arbitrary: h)
  case Nil
  then show ?case by simp
next
  case (Cons p ps)
  note pp = process_prefix_at_pure [OF Cons.prems, of L p]
  show ?case
  proof (cases "process_prefix L (g_edges (h ! r)) p (h ! m)")
    case (Inl err)
    with pp show ?thesis by (auto split: prod.splits option.splits)
  next
    case (Inr g)
    with pp have s: "process_prefix_at r m L p h = (None, h[m := g])" by simp
    from Cons.prems have "m < length (h[m := g])" "r < length (h[m := g])" by simp_all
    from Cons.IH [OF this Cons.prems(3)] Cons.prems Inr s show ?thesis
      by (simp split: sum.splits)
  qed
qed


text \<open>
  C7: for every store, every address \<open>r\<close> of a graph in it and every prefix sequence,
  whether the call succeeds or fails, the store after the call has one object more, every
  object that was in the store, the caller's graph at \<open>r\<close> among them, is what it was
  (nodes, attributes and edges), and the call returns what the routine computes from the
  value of the caller's graph: the error, or the address of the new object, which holds
  the output.
\<close>

theorem modularise_leaves_input_unchanged:
  assumes "r < length h"
  shows "length (snd (modularise_snakemake_graph_at r P h)) = length h + 1 \<and>
         (\<forall>a. a < length h \<longrightarrow> snd (modularise_snakemake_graph_at r P h) ! a = h ! a) \<and>
         snd (modularise_snakemake_graph_at r P h) ! r = h ! r \<and>
         (case modularise_snakemake_graph (h ! r) P of
            Inl err \<Rightarrow> fst (modularise_snakemake_graph_at r P h) = Inl err
          | Inr out \<Rightarrow> fst (modularise_snakemake_graph_at r P h) = Inr (length h) \<and>
                       snd (modularise_snakemake_graph_at r P h) ! length h = out)"
proof -
  let ?L = "clean_labels (h ! r)"
  let ?h0 = "h @ [h ! r]"
  obtain res h' where l: "prefix_loop_at r (length h) ?L P ?h0 = (res, h')"
    by (cases "prefix_loop_at r (length h) ?L P ?h0")
  have sn: "snd (modularise_snakemake_graph_at r P h) = h'"
    using l by (cases res) (simp_all add: modularise_snakemake_graph_at_def Let_def)
  have fs: "fst (modularise_snakemake_graph_at r P h) =
              (case res of Some err \<Rightarrow> Inl err | None \<Rightarrow> Inr (length h))"
    using l by (cases res) (simp_all add: modularise_snakemake_graph_at_def Let_def)
  from prefix_loop_at_frame [OF l]
  have len: "length h' = length h + 1" and fr: "\<forall>a. a \<noteq> length h \<longrightarrow> h' ! a = ?h0 ! a"
    by simp_all
  have same: "\<forall>a. a < length h \<longrightarrow> h' ! a = h ! a"
    using fr by (simp add: nth_append)
  have m: "length h < length ?h0" "r < length ?h0" "r \<noteq> length h"
    and at: "?h0 ! r = h ! r" "?h0 ! length h = h ! r"
    using assms by (simp_all add: nth_append)
  from prefix_loop_at_pure [OF m, of ?L P]
  have "(case modularise_snakemake_graph (h ! r) P of
            Inl err \<Rightarrow> fst (modularise_snakemake_graph_at r P h) = Inl err
          | Inr out \<Rightarrow> fst (modularise_snakemake_graph_at r P h) = Inr (length h) \<and>
                       snd (modularise_snakemake_graph_at r P h) ! length h = out)"
    using l by (auto simp: modularise_snakemake_graph_def at sn fs split: sum.splits)
  with len same assms show ?thesis by (simp add: sn)
qed

text \<open>
  C7 at a store that holds \<open>two_module_graph\<close> at address 0: a call that succeeds and a
  call that fails both leave the object at address 0 as it was.
\<close>

theorem modularise_leaves_input_unchanged_witness:
  "(0::nat) < length [two_module_graph] \<and>
   snd (modularise_snakemake_graph_at 0 [''m1'', ''m2''] [two_module_graph]) ! 0 = two_module_graph \<and>
   fst (modularise_snakemake_graph_at 0 [''m1'', ''m2''] [two_module_graph]) = Inr 1 \<and>
   snd (modularise_snakemake_graph_at 0 [''zz''] [two_module_graph]) ! 0 = two_module_graph \<and>
   fst (modularise_snakemake_graph_at 0 [''zz''] [two_module_graph]) =
     Inl (ValueError ''Prefix not found: zz.'')"
proof -
  have h: "(0::nat) < length [two_module_graph]" by simp
  have e1: "modularise_snakemake_graph two_module_graph [''m1'', ''m2''] =
     Inr \<lparr>g_nodes = [(''m1'', [(''label'', ''m1''), (''color'', ''0 0 0''), (''style'', ''diagonals'')]),
                      (''m2'', [(''label'', ''m2''), (''color'', ''0 0 0''), (''style'', ''diagonals'')]),
                      (''A'', [])],
          g_edges = [(''A'', ''m2'')]\<rparr>"
    by code_simp
  have e2: "modularise_snakemake_graph two_module_graph [''zz''] =
              Inl (ValueError ''Prefix not found: zz.'')"
    by code_simp
  from modularise_leaves_input_unchanged [OF h, of "[''m1'', ''m2'']"]
       modularise_leaves_input_unchanged [OF h, of "[''zz'']"] e1 e2
  show ?thesis by simp
qed

section \<open>Files that are not \<open>.dot\<close> files\<close>

text \<open>
  C8: for every file path whose string form does not end in \<open>.dot\<close>, the entry operation
  fails with the message \<open>Only .dot files can be processed.\<close>, whatever the reader and the
  writer would do, and without a call to either: the list of events is empty.
\<close>

theorem non_dot_file_rejected:
  "\<not> endswith snakemake_dotfile ''.dot'' \<Longrightarrow>
     write_snakemake_modulegraph_png read_dot write_png snakemake_dotfile output_path prefixes =
       (Inl (ValueError ''Only .dot files can be processed.''), [])"
  by (simp add: write_snakemake_modulegraph_png_def)

text \<open>C8 at the path of the repository's test, \<open>some_file.txt\<close>.\<close>

theorem non_dot_file_rejected_witness:
  "\<not> endswith ''some_file.txt'' ''.dot'' \<and>
   write_snakemake_modulegraph_png (\<lambda>path. Inr scenario_graph) (\<lambda>g path. None)
       ''some_file.txt'' ''modulegraph.png'' (PrefixStr ''module_biofuels'') =
     (Inl (ValueError ''Only .dot files can be processed.''), [])"
proof -
  have h: "\<not> endswith ''some_file.txt'' ''.dot''" by code_simp
  from non_dot_file_rejected [OF h] h show ?thesis by simp
qed

section \<open>Country codes\<close>

lemma lower_examples:
  "lower ''FR'' = ''fr''" "lower ''el'' = ''el''" "lower ''gr'' = ''gr''" "lower ''GB'' = ''gb''"
  by code_simp+

text \<open>
  C9: \<open>convert_country_code("FR", "alpha3")\<close> returns \<open>FRA\<close>, \<open>convert_country_code("el",
  "alpha3")\<close> returns what \<open>convert_country_code("gr", "alpha3")\<close> returns, and
  \<open>convert_country_code("GB", "alpha2_eu")\<close> returns \<open>UK\<close>, for every database in which
  \<open>FR\<close> finds a record whose three-letter code is \<open>FRA\<close> and \<open>GB\<close> finds a record whose
  two-letter code is \<open>GB\<close>, as the ISO 3166 records of \<open>pycountry\<close> are.
\<close>

theorem convert_country_code_examples:
  assumes "lookup ''FR'' = Some fr" and "alpha_3 fr = ''FRA''"
    and "lookup ''GB'' = Some gb" and "alpha_2 gb = ''GB''"
  shows "convert_country_code lookup ''FR'' ''alpha3'' = Inr ''FRA'' \<and>
         convert_country_code lookup ''el'' ''alpha3'' =
           convert_country_code lookup ''gr'' ''alpha3'' \<and>
         convert_country_code lookup ''GB'' ''alpha2_eu'' = Inr ''UK''"
  using assms by (simp add: convert_country_code_def lower_examples Let_def)

text \<open>C9 at the database of four records.\<close>

theorem convert_country_code_examples_witness:
  "example_lookup ''FR'' = Some \<lparr>alpha_2 = ''FR'', alpha_3 = ''FRA'', name = ''France''\<rparr> \<and>
   example_lookup ''GB'' = Some \<lparr>alpha_2 = ''GB'', alpha_3 = ''GBR'', name = ''United Kingdom''\<rparr> \<and>
   convert_country_code example_lookup ''FR'' ''alpha3'' = Inr ''FRA'' \<and>
   convert_country_code example_lookup ''el'' ''alpha3'' =
     convert_country_code example_lookup ''gr'' ''alpha3'' \<and>
   convert_country_code example_lookup ''GB'' ''alpha2_eu'' = Inr ''UK''"
proof -
  have f: "example_lookup ''FR'' = Some \<lparr>alpha_2 = ''FR'', alpha_3 = ''FRA'', name = ''France''\<rparr>"
    by code_simp
  have g: "example_lookup ''GB'' =
             Some \<lparr>alpha_2 = ''GB'', alpha_3 = ''GBR'', name = ''United Kingdom''\<rparr>"
    by code_simp
  from convert_country_code_examples [OF f _ g] f g show ?thesis by simp
qed

text \<open>
  C10: for every input whose length is not 2, \<open>eu_country_code_to_iso3\<close> fails with an
  \<open>AssertionError\<close> whose message quotes the input, whatever the database holds (no lookup
  takes part in the result); for every input of length 2 it returns what
  \<open>convert_country_code\<close> returns for that input and the output \<open>alpha3\<close>.
\<close>

theorem eu_country_code_to_iso3_checks_length:
  "(length eu_country_code \<noteq> 2 \<longrightarrow>
      eu_country_code_to_iso3 lookup eu_country_code =
        Inl (AssertionError (''EU country codes are of length 2, yours is '' @ [CHR 0x27] @
                             eu_country_code @ [CHR 0x27] @ ''.''))) \<and>
   (length eu_country_code = 2 \<longrightarrow>
      eu_country_code_to_iso3 lookup eu_country_code =
        convert_country_code lookup eu_country_code ''alpha3'')"
  by (simp add: eu_country_code_to_iso3_def)

text \<open>C10 at \<open>FRA\<close>, of length 3, and at \<open>FR\<close>, of length 2.\<close>

theorem eu_country_code_to_iso3_checks_length_witness:
  "length ''FRA'' \<noteq> 2 \<and>
   eu_country_code_to_iso3 example_lookup ''FRA'' =
     Inl (AssertionError (''EU country codes are of length 2, yours is '' @ [CHR 0x27] @
                          ''FRA'' @ [CHR 0x27] @ ''.'')) \<and>
   length ''FR'' = 2 \<and>
   eu_country_code_to_iso3 example_lookup ''FR'' =
     convert_country_code example_lookup ''FR'' ''alpha3''"
  using eu_country_code_to_iso3_checks_length [of "''FRA''" example_lookup]
        eu_country_code_to_iso3_checks_length [of "''FR''" example_lookup]
  by simp

end
